theory Spec2Isabelle
  imports Main "HOL-Library.Word"
begin

unbundle bit_operations_syntax

section \<open>Machine types\<close>

type_synonym u16 = "16 word"
type_synonym u32 = "32 word"
type_synonym u64 = "64 word"

text \<open>A pointer is a byte address; \<open>NULL\<close> is address 0.\<close>

type_synonym addr = "64 word"

definition NULL :: addr where
  "NULL = 0"

definition UINT64_MAX :: u64 where
  "UINT64_MAX = - 1"

text \<open>
  A violated \<open>DM_CHECK\<close> and an access outside the buffer are results of their own:
  the source aborts (or is undefined) there.
\<close>

datatype error = CheckFailed | OutOfBounds

section \<open>Bit counting helpers of \<open>dm/ng/bitops.h\<close>\<close>

text \<open>
  Modelled from the spec: \<open>cnttz_u64\<close> of \<open>dm/ng/bitops.h\<close>, a header that is not among
  the sources. It counts the zero bits below the lowest set bit of the word, which is
  how \<open>setRightmostBit\<close> and the first-bit queries turn an isolated bit into its
  position; the count is 64 for the word 0.
\<close>

definition cnttz_u64 :: "u64 \<Rightarrow> u64" where
  "cnttz_u64 v = of_nat (length (takeWhile (\<lambda>i. \<not> bit v i) [0..<64]))"

text \<open>
  Modelled from the spec: \<open>cntlz_u64\<close> of \<open>dm/ng/bitops.h\<close>, not among the sources. It
  counts the zero bits above the highest set bit of the word; the count is 64 for the
  word 0.
\<close>

definition cntlz_u64 :: "u64 \<Rightarrow> u64" where
  "cntlz_u64 v = of_nat (length (takeWhile (\<lambda>i. \<not> bit v i) (rev [0..<64])))"

text \<open>
  Modelled from the spec: \<open>cntbits_u64\<close> of \<open>dm/ng/bitops.h\<close>, not among the sources. It
  is the population count of the word (\<open>doCount\<close> is the "sum of per-word set-bit
  counts").
\<close>

definition cntbits_u64 :: "u64 \<Rightarrow> u64" where
  "cntbits_u64 v = of_nat (length (filter (bit v) [0..<64]))"

section \<open>The bit array: \<open>BitArrayImpl\<close> over its storage\<close>

text \<open>
  \<open>bits\<close> is the content of the buffer that \<open>bits()\<close> points to, one entry for each
  64-bit word of it; \<open>m_numSlots\<close> and \<open>m_max\<close> are the fields of the storage,
  \<open>m_last\<close> the cursor of \<open>BitArrayImpl\<close>. A parameter \<open>_x\<close> of the source is
  written \<open>a_x\<close>. Every operation checks its \<open>DM_CHECK\<close>s first and every access to
  the buffer against its length; \<open>uint32_t\<close> arithmetic is arithmetic of \<open>32 word\<close>.
\<close>

record bitarray =
  bits :: "u64 list"
  m_numSlots :: u32
  m_max :: u32
  m_last :: u32

definition numSlotsFor :: "u32 \<Rightarrow> u32" where
  "numSlotsFor a_max = drop_bit 6 (a_max - 1) + 1"

definition sizeFor :: "u32 \<Rightarrow> u32" where
  "sizeFor a_max = numSlotsFor a_max * 8"

text \<open>\<open>memset(p + start, v, n * sizeof(uint64_t))\<close> with every byte of the fill equal.\<close>

definition memset_words :: "u64 list \<Rightarrow> nat \<Rightarrow> u64 \<Rightarrow> nat \<Rightarrow> error + u64 list" where
  "memset_words xs start v n =
     (if start + n \<le> length xs
      then Inr (take start xs @ replicate n v @ drop (start + n) xs)
      else Inl OutOfBounds)"

definition markFirstUnsetBit :: "u64 \<Rightarrow> u64" where
  "markFirstUnsetBit a_v =
     (let val = a_v;
          neg = NOT val;
          add = val + 1;
          bit = neg AND add
      in bit)"

text \<open>\<open>set\<close> of the source (the name \<open>set\<close> is taken in HOL).\<close>

definition set_bit_op :: "bitarray \<Rightarrow> u32 \<Rightarrow> error + bitarray" where
  "set_bit_op s a_bit =
     (if \<not> a_bit < m_max s then Inl CheckFailed
      else let bucket = unat (drop_bit 6 a_bit);
               bit = push_bit (unat (a_bit AND 63)) (1 :: u64)
           in if bucket < length (bits s)
              then Inr (s\<lparr>bits := (bits s)[bucket := bits s ! bucket OR bit]\<rparr>)
              else Inl OutOfBounds)"

definition unset :: "bitarray \<Rightarrow> u32 \<Rightarrow> error + bitarray" where
  "unset s a_bit =
     (if \<not> a_bit < m_max s then Inl CheckFailed
      else let bucket = unat (drop_bit 6 a_bit);
               bit = push_bit (unat (a_bit AND 63)) (1 :: u64)
           in if bucket < length (bits s)
              then Inr (s\<lparr>bits := (bits s)[bucket := bits s ! bucket AND NOT bit]\<rparr>)
              else Inl OutOfBounds)"

definition toggle :: "bitarray \<Rightarrow> u32 \<Rightarrow> error + bitarray" where
  "toggle s a_bit =
     (if \<not> a_bit < m_max s then Inl CheckFailed
      else let bucket = unat (drop_bit 6 a_bit);
               bit = push_bit (unat (a_bit AND 63)) (1 :: u64)
           in if bucket < length (bits s)
              then Inr (s\<lparr>bits := (bits s)[bucket := bits s ! bucket XOR bit]\<rparr>)
              else Inl OutOfBounds)"

definition isSet :: "bitarray \<Rightarrow> u32 \<Rightarrow> error + bool" where
  "isSet s a_bit =
     (if \<not> a_bit < m_max s then Inl CheckFailed
      else let bucket = unat (drop_bit 6 a_bit);
               bit = push_bit (unat (a_bit AND 63)) (1 :: u64)
           in if bucket < length (bits s)
              then Inr (0 \<noteq> (bits s ! bucket AND bit))
              else Inl OutOfBounds)"

text \<open>The six shift-and-or steps that spread \<open>bitBegin\<close> and \<open>bitEnd\<close> in the range operations.\<close>

definition valBegin_of :: "u64 \<Rightarrow> u64" where
  "valBegin_of bitBegin =
     (let valBegin = bitBegin;
          valBegin = valBegin OR drop_bit 1 valBegin;
          valBegin = valBegin OR drop_bit 2 valBegin;
          valBegin = valBegin OR drop_bit 4 valBegin;
          valBegin = valBegin OR drop_bit 8 valBegin;
          valBegin = valBegin OR drop_bit 16 valBegin;
          valBegin = valBegin OR drop_bit 32 valBegin
      in valBegin)"

definition valEnd_of :: "u64 \<Rightarrow> u64" where
  "valEnd_of bitEnd =
     (let valEnd = bitEnd;
          valEnd = valEnd OR push_bit 1 valEnd;
          valEnd = valEnd OR push_bit 2 valEnd;
          valEnd = valEnd OR push_bit 4 valEnd;
          valEnd = valEnd OR push_bit 8 valEnd;
          valEnd = valEnd OR push_bit 16 valEnd;
          valEnd = valEnd OR push_bit 32 valEnd
      in valEnd)"

definition setRange :: "bitarray \<Rightarrow> u32 \<Rightarrow> u32 \<Rightarrow> error + bitarray" where
  "setRange s a_begin a_end =
     (if \<not> a_begin < m_max s then Inl CheckFailed
      else if \<not> a_end < m_max s then Inl CheckFailed
      else let bucketBegin = drop_bit 6 a_begin;
               bucketEnd = drop_bit 6 a_end;
               bitBegin = push_bit (unat (a_begin AND 63)) (1 :: u64);
               valBegin = valBegin_of bitBegin
           in if \<not> unat bucketBegin < length (bits s) then Inl OutOfBounds
              else let b1 = (bits s)[unat bucketBegin := bits s ! unat bucketBegin OR valBegin];
                       bitEnd = push_bit (unat (a_end AND 63)) (1 :: u64);
                       valEnd = valEnd_of bitEnd
                   in if \<not> unat bucketEnd < length b1 then Inl OutOfBounds
                      else let b2 = b1[unat bucketEnd := b1 ! unat bucketEnd OR valEnd];
                               numBucketsToSet = bucketEnd - bucketBegin
                           in case memset_words b2 (unat bucketBegin) (- 1) (unat numBucketsToSet) of
                                Inl e \<Rightarrow> Inl e
                              | Inr b3 \<Rightarrow>
                                  Inr (s\<lparr>bits := b3,
                                         m_last := (if a_begin \<le> m_last s \<and> m_last s \<le> a_end
                                                    then a_end else m_last s)\<rparr>))"

definition unsetRange :: "bitarray \<Rightarrow> u32 \<Rightarrow> u32 \<Rightarrow> error + bitarray" where
  "unsetRange s a_begin a_end =
     (if \<not> a_begin < m_max s then Inl CheckFailed
      else if \<not> a_end < m_max s then Inl CheckFailed
      else let bucketBegin = drop_bit 6 a_begin;
               bucketEnd = drop_bit 6 a_end;
               bitBegin = push_bit (unat (a_begin AND 63)) (1 :: u64);
               valBegin = valBegin_of bitBegin
           in if \<not> unat bucketBegin < length (bits s) then Inl OutOfBounds
              else let b1 = (bits s)[unat bucketBegin := bits s ! unat bucketBegin AND NOT valBegin];
                       bitEnd = push_bit (unat (a_end AND 63)) (1 :: u64);
                       valEnd = valEnd_of bitEnd
                   in if \<not> unat bucketEnd < length b1 then Inl OutOfBounds
                      else let b2 = b1[unat bucketEnd := b1 ! unat bucketEnd AND NOT valEnd];
                               numBucketsToSet = bucketEnd - bucketBegin
                           in case memset_words b2 (unat bucketBegin) 0 (unat numBucketsToSet) of
                                Inl e \<Rightarrow> Inl e
                              | Inr b3 \<Rightarrow> Inr (s\<lparr>bits := b3, m_last := a_begin\<rparr>))"

definition setRightmostBit :: "bitarray \<Rightarrow> u32 \<Rightarrow> error + (u32 \<times> bitarray)" where
  "setRightmostBit s a_slot =
     (if \<not> unat a_slot < length (bits s) then Inl OutOfBounds
      else let rightmost = bits s ! unat a_slot + 1;
               s' = s\<lparr>bits := (bits s)[unat a_slot := bits s ! unat a_slot OR rightmost]\<rparr>;
               pos = (ucast (cnttz_u64 rightmost) :: u32);
               idx = push_bit 6 a_slot + pos;
               maxIdx = m_max s'
           in Inr (if idx < maxIdx then idx else maxIdx, s'))"

function setFirst_loop :: "bitarray \<Rightarrow> u32 \<Rightarrow> u32 \<Rightarrow> error + (u32 \<times> bitarray)" where
  "setFirst_loop s slot endv =
     (if slot < endv
      then if \<not> unat slot < length (bits s) then Inl OutOfBounds
           else let hasUnsetBits = (bits s ! unat slot \<noteq> UINT64_MAX)
                in if hasUnsetBits then setRightmostBit s slot
                   else setFirst_loop s (slot + 1) endv
      else Inr (m_max s, s))"
  by pat_completeness auto
termination
  by (relation "measure (\<lambda>(s, slot, endv). unat endv - unat slot)")
     (simp, clarsimp, unat_arith)

definition setFirst :: "bitarray \<Rightarrow> error + (u32 \<times> bitarray)" where
  "setFirst s = setFirst_loop s 0 (m_numSlots s)"

text \<open>
  One scan of \<open>setAny\<close>: \<open>Some idx\<close> when a word with an unset bit was found and
  \<open>setRightmostBit\<close> returned, \<open>None\<close> when the loop ran to its end; the cursor is
  moved past every full word on the way.
\<close>

function setAny_loop :: "bitarray \<Rightarrow> u32 \<Rightarrow> u32 \<Rightarrow> error + (u32 option \<times> bitarray)" where
  "setAny_loop s slot endv =
     (if slot < endv
      then if \<not> unat slot < length (bits s) then Inl OutOfBounds
           else let hasUnsetBits = (bits s ! unat slot \<noteq> UINT64_MAX)
                in if hasUnsetBits
                   then (case setRightmostBit s slot of
                           Inl e \<Rightarrow> Inl e
                         | Inr (idx, s') \<Rightarrow> Inr (Some idx, s'))
                   else setAny_loop (s\<lparr>m_last := slot + 1\<rparr>) (slot + 1) endv
      else Inr (None, s))"
  by pat_completeness auto
termination
  by (relation "measure (\<lambda>(s, slot, endv). unat endv - unat slot)")
     (simp, clarsimp, unat_arith)

definition setAny :: "bitarray \<Rightarrow> error + (u32 \<times> bitarray)" where
  "setAny s =
     (let begin = m_last s;
          count = m_numSlots s
      in case setAny_loop s begin (m_numSlots s) of
           Inl e \<Rightarrow> Inl e
         | Inr (Some idx, s1) \<Rightarrow> Inr (idx, s1)
         | Inr (None, s1) \<Rightarrow>
             (let s2 = s1\<lparr>m_last := (if m_last s1 \<ge> count then 0 else m_last s1)\<rparr>
              in case setAny_loop s2 0 begin of
                   Inl e \<Rightarrow> Inl e
                 | Inr (Some idx, s3) \<Rightarrow> Inr (idx, s3)
                 | Inr (None, s3) \<Rightarrow> Inr (m_max s3, s3)))"

function getFirstSetBit_loop :: "bitarray \<Rightarrow> u32 \<Rightarrow> u32 \<Rightarrow> error + u32" where
  "getFirstSetBit_loop s ii endv =
     (if ii < endv
      then if \<not> unat ii < length (bits s) then Inl OutOfBounds
           else let hasSetBits = (0 \<noteq> bits s ! unat ii)
                in if hasSetBits
                   then let pos = (ucast (cnttz_u64 (bits s ! unat ii)) :: u32)
                        in Inr (push_bit 6 ii + pos)
                   else getFirstSetBit_loop s (ii + 1) endv
      else Inr (m_max s))"
  by pat_completeness auto
termination
  by (relation "measure (\<lambda>(s, ii, endv). unat endv - unat ii)")
     (simp, clarsimp, unat_arith)

definition getFirstSetBit :: "bitarray \<Rightarrow> error + u32" where
  "getFirstSetBit s = getFirstSetBit_loop s 0 (m_numSlots s)"

function getFirstUnsetBit_loop :: "bitarray \<Rightarrow> u32 \<Rightarrow> u32 \<Rightarrow> error + u32" where
  "getFirstUnsetBit_loop s ii endv =
     (if ii < endv
      then if \<not> unat ii < length (bits s) then Inl OutOfBounds
           else let hasUnsetBits = (bits s ! unat ii \<noteq> UINT64_MAX)
                in if hasUnsetBits
                   then let sel = markFirstUnsetBit (bits s ! unat ii);
                            pos = (ucast (cnttz_u64 sel) :: u32)
                        in Inr (push_bit 6 ii + pos)
                   else getFirstUnsetBit_loop s (ii + 1) endv
      else Inr (m_max s))"
  by pat_completeness auto
termination
  by (relation "measure (\<lambda>(s, ii, endv). unat endv - unat ii)")
     (simp, clarsimp, unat_arith)

definition getFirstUnsetBit :: "bitarray \<Rightarrow> error + u32" where
  "getFirstUnsetBit s = getFirstUnsetBit_loop s 0 (m_numSlots s)"

text \<open>
  The loops \<open>for (uint32_t ii = numSlots(); ii--; )\<close>: the test reads \<open>ii\<close>, then
  \<open>ii\<close> is decremented, and the body runs with the decremented value.
\<close>

function getLastSetBit_loop :: "bitarray \<Rightarrow> u32 \<Rightarrow> error + u32" where
  "getLastSetBit_loop s ii =
     (if ii \<noteq> 0
      then let ii = ii - 1
           in if \<not> unat ii < length (bits s) then Inl OutOfBounds
              else let hasSetBits = (0 \<noteq> bits s ! unat ii)
                   in if hasSetBits
                      then let allSet = (UINT64_MAX = bits s ! unat ii)
                           in if allSet then Inr (push_bit 6 (ii + 1))
                              else let sel = markFirstUnsetBit (bits s ! unat ii);
                                       leading = cntlz_u64 sel;
                                       pos = 63 - (ucast leading :: u32)
                                   in Inr (push_bit 6 ii + pos)
                      else getLastSetBit_loop s ii
      else Inr 0)"
  by pat_completeness auto
termination
  by (relation "measure (\<lambda>(s, ii). unat ii)") (simp, clarsimp, unat_arith)

definition getLastSetBit :: "bitarray \<Rightarrow> error + u32" where
  "getLastSetBit s = getLastSetBit_loop s (m_numSlots s)"

function getLastUnsetBit_loop :: "bitarray \<Rightarrow> u32 \<Rightarrow> error + u32" where
  "getLastUnsetBit_loop s ii =
     (if ii \<noteq> 0
      then let ii = ii - 1
           in if \<not> unat ii < length (bits s) then Inl OutOfBounds
              else let hasSetBits = (0 \<noteq> bits s ! unat ii)
                   in if hasSetBits
                      then let leading = cntlz_u64 (bits s ! unat ii);
                               pos = 63 - (ucast leading :: u32)
                           in Inr (push_bit 6 ii + pos)
                      else getLastUnsetBit_loop s ii
      else Inr (m_max s))"
  by pat_completeness auto
termination
  by (relation "measure (\<lambda>(s, ii). unat ii)") (simp, clarsimp, unat_arith)

definition getLastUnsetBit :: "bitarray \<Rightarrow> error + u32" where
  "getLastUnsetBit s = getLastUnsetBit_loop s (m_numSlots s)"

function doCount_loop :: "bitarray \<Rightarrow> u32 \<Rightarrow> u64 \<Rightarrow> error + u64" where
  "doCount_loop s ii count =
     (if ii \<noteq> 0
      then let ii = ii - 1
           in if \<not> unat ii < length (bits s) then Inl OutOfBounds
              else let curr = bits s ! unat ii
                   in doCount_loop s ii (count + cntbits_u64 curr)
      else Inr count)"
  by pat_completeness auto
termination
  by (relation "measure (\<lambda>(s, ii, count). unat ii)") (simp, clarsimp, unat_arith)

definition doCount :: "bitarray \<Rightarrow> error + u32" where
  "doCount s =
     (case doCount_loop s (m_numSlots s) 0 of
        Inl e \<Rightarrow> Inl e
      | Inr count \<Rightarrow> Inr (ucast count))"

definition reset_range :: "bitarray \<Rightarrow> u32 \<Rightarrow> u32 \<Rightarrow> error + bitarray" where
  "reset_range s startBucket endBucket =
     (case memset_words (bits s) (unat startBucket) 0 (unat (endBucket - startBucket)) of
        Inl e \<Rightarrow> Inl e
      | Inr b \<Rightarrow> Inr (s\<lparr>m_last := 0, bits := b\<rparr>))"

definition reset :: "bitarray \<Rightarrow> error + bitarray" where
  "reset s =
     (case memset_words (bits s) 0 0 (unat (m_numSlots s)) of
        Inl e \<Rightarrow> Inl e
      | Inr b \<Rightarrow> Inr (s\<lparr>m_last := 0, bits := b\<rparr>))"

section \<open>Storage of the bit array\<close>

text \<open>
  \<open>BitArrayExt::init\<close> on the operations: \<open>Base::init\<close> stores the buffer, the slot
  count and the capacity, \<open>Base::reset\<close> zeroes the slots and the cursor. \<open>mem\<close> is
  the content of the caller's buffer; \<open>s\<close> is the object before the call (its cursor
  is not initialised by any constructor).
\<close>

definition BitArrayExt_init :: "bitarray \<Rightarrow> u32 \<Rightarrow> u64 list \<Rightarrow> error + bitarray" where
  "BitArrayExt_init s a_max mem =
     reset (s\<lparr>bits := mem, m_numSlots := numSlotsFor a_max, m_max := a_max\<rparr>)"

text \<open>The object \<open>BitArrayStorageExt()\<close> constructs; \<open>junk\<close> is the cursor's initial value.\<close>

definition BitArrayExt_ctor :: "u32 \<Rightarrow> bitarray" where
  "BitArrayExt_ctor junk = \<lparr>bits = [], m_numSlots = 0, m_max = 0, m_last = junk\<rparr>"

text \<open>The same storage with its pointer: what \<open>init\<close> returns is an address.\<close>

record BitArrayStorageExt =
  ext_m_bits :: addr
  ext_m_numSlots :: u32
  ext_m_max :: u32

definition BitArrayStorageExt_ctor :: BitArrayStorageExt where
  "BitArrayStorageExt_ctor = \<lparr>ext_m_bits = NULL, ext_m_numSlots = 0, ext_m_max = 0\<rparr>"

definition BitArrayStorageExt_init ::
    "BitArrayStorageExt \<Rightarrow> u32 \<Rightarrow> addr \<Rightarrow> addr \<times> BitArrayStorageExt" where
  "BitArrayStorageExt_init st a_max a_mem =
     (a_mem + ucast (sizeFor a_max),
      st\<lparr>ext_m_bits := a_mem, ext_m_numSlots := numSlotsFor a_max, ext_m_max := a_max\<rparr>)"

text \<open>
  The owned storage \<open>BitArrayStorage\<close>. The allocator is outside the sources: \<open>init\<close>
  takes the pointer \<open>dm_alloc\<close> returned, and \<open>destroy\<close> returns the \<open>dm_free\<close> calls
  it made, each as the pointer released and the function it was released with.
\<close>

record BitArrayStorage =
  own_m_bits :: addr
  own_m_numSlots :: u32
  own_m_max :: u32
  own_m_reallocFn :: addr

definition BitArrayStorage_ctor :: "addr \<Rightarrow> BitArrayStorage" where
  "BitArrayStorage_ctor junk =
     \<lparr>own_m_bits = NULL, own_m_numSlots = 0, own_m_max = 0, own_m_reallocFn = junk\<rparr>"

definition BitArrayStorage_init ::
    "BitArrayStorage \<Rightarrow> u32 \<Rightarrow> addr \<Rightarrow> addr \<Rightarrow> BitArrayStorage" where
  "BitArrayStorage_init st a_max a_reallocFn mem =
     st\<lparr>own_m_bits := mem, own_m_numSlots := numSlotsFor a_max, own_m_max := a_max,
        own_m_reallocFn := a_reallocFn\<rparr>"

definition BitArrayStorage_destroy ::
    "BitArrayStorage \<Rightarrow> BitArrayStorage \<times> (addr \<times> addr) list" where
  "BitArrayStorage_destroy st =
     (if NULL \<noteq> own_m_bits st
      then (st\<lparr>own_m_bits := NULL\<rparr>, [(own_m_bits st, own_m_reallocFn st)])
      else (st, []))"

section \<open>Storage of the sparse set: \<open>Set\<close>\<close>

text \<open>
  \<open>m_reallocator\<close> stands for the union of \<open>m_allocator\<close> and \<open>m_reallocator\<close>.
  Pointers to \<open>uint16_t\<close> are byte addresses, so \<open>m_values + _max\<close> is \<open>2 * _max\<close>
  bytes further.
\<close>

record Set =
  set_m_max :: u16
  set_m_num :: u16
  m_values :: addr
  m_indices :: addr
  m_reallocator :: addr
  m_cleanup :: bool

definition Set_ctor :: "Set \<Rightarrow> Set" where
  "Set_ctor raw = raw\<lparr>m_values := NULL, m_indices := NULL\<rparr>"

definition SizePerElement :: u32 where
  "SizePerElement = 2 * 2"

definition Set_sizeFor :: "u16 \<Rightarrow> u32" where
  "Set_sizeFor a_max = ucast a_max * SizePerElement"

definition Set_init_owned :: "Set \<Rightarrow> u16 \<Rightarrow> addr \<Rightarrow> addr \<Rightarrow> Set" where
  "Set_init_owned st a_max a_reallocator mem =
     st\<lparr>set_m_num := 0, set_m_max := a_max, m_values := mem,
        m_indices := mem + 2 * ucast a_max, m_reallocator := a_reallocator,
        m_cleanup := True\<rparr>"

definition Set_init_ext :: "Set \<Rightarrow> u16 \<Rightarrow> addr \<Rightarrow> addr \<Rightarrow> addr \<times> Set" where
  "Set_init_ext st a_max a_mem a_allocator =
     (let st' = st\<lparr>set_m_num := 0, set_m_max := a_max, m_values := a_mem,
                     m_indices := a_mem + 2 * ucast a_max, m_reallocator := a_allocator,
                     m_cleanup := False\<rparr>;
          endp = a_mem + ucast (Set_sizeFor a_max)
      in (endp, st'))"

definition Set_destroy :: "Set \<Rightarrow> Set \<times> (addr \<times> addr) list" where
  "Set_destroy st =
     (if m_cleanup st \<and> NULL \<noteq> m_values st
      then (st\<lparr>m_values := NULL, m_indices := NULL\<rparr>, [(m_values st, m_reallocator st)])
      else (st, []))"

section \<open>Call sequences and reference values\<close>

text \<open>\<open>setFirst\<close> called \<open>n\<close> times in a row: the values returned, in order, and the last state.\<close>

fun setFirst_calls :: "nat \<Rightarrow> bitarray \<Rightarrow> error + (u32 list \<times> bitarray)" where
  "setFirst_calls 0 s = Inr ([], s)"
| "setFirst_calls (Suc n) s =
     (case setFirst s of
        Inl e \<Rightarrow> Inl e
      | Inr (r, s') \<Rightarrow>
          (case setFirst_calls n s' of
             Inl e \<Rightarrow> Inl e
           | Inr (rs, s'') \<Rightarrow> Inr (r # rs, s'')))"

text \<open>The number of indices \<open>i\<close> in \<open>[0, max())\<close> for which \<open>isSet(i)\<close> is true.\<close>

definition countSet :: "bitarray \<Rightarrow> nat" where
  "countSet s = length (filter (\<lambda>i. isSet s (word_of_nat i) = Inr True) [0..<unat (m_max s)])"

text \<open>The buffer of \<open>n\<close> words in which exactly the bits of the indices below \<open>k\<close> are set.\<close>

definition filled :: "nat \<Rightarrow> nat \<Rightarrow> u64 list" where
  "filled n k = map (\<lambda>j. mask (k - 64 * j)) [0..<n]"

section \<open>Word arithmetic of the addressing scheme\<close>

lemma unat_bucket: "unat (drop_bit 6 (w :: u32)) = unat w div 64"
  unfolding unat_drop_bit_eq by (simp add: drop_bit_eq_div)

lemma unat_numSlotsFor:
  assumes "0 < a_max"
  shows "unat (numSlotsFor a_max) = (unat a_max - 1) div 64 + 1"
proof -
  have nz: "a_max \<noteq> 0"
    using assms by simp
  have d: "unat (drop_bit 6 (a_max - 1)) = (unat a_max - 1) div 64"
    by (simp add: unat_bucket unat_minus_one [OF nz])
  have "unat a_max < 2 ^ 32"
    using unsigned_less [of a_max] by simp
  then have "(unat a_max - 1) div 64 + 1 < 2 ^ 32"
    using div_le_dividend [of "unat a_max - 1" 64] nz by (simp add: unat_eq_0)
  then have "unat (drop_bit 6 (a_max - 1)) + unat (1 :: u32) < 2 ^ LENGTH(32)"
    using d by simp
  then have "unat (drop_bit 6 (a_max - 1) + 1) = unat (drop_bit 6 (a_max - 1)) + unat (1 :: u32)"
    by (simp only: unat_add_lem [THEN iffD1])
  then show ?thesis
    using d by (simp add: numSlotsFor_def)
qed

text \<open>For a capacity of at least 1 the slot count is \<open>ceil(max / 64)\<close>, without wrap-around.\<close>

lemma numSlotsFor_ceil:
  assumes "0 < a_max"
  shows "unat (numSlotsFor a_max) = (unat a_max + 63) div 64"
proof -
  have "0 < unat a_max"
    using assms by (simp add: word_less_nat_alt)
  then obtain n where n: "unat a_max = Suc n"
    by (cases "unat a_max") simp_all
  have "(n + 64) div 64 = n div 64 + 1"
    by simp
  then show ?thesis
    by (simp add: unat_numSlotsFor [OF assms] n)
qed

lemma bucket_in_range:
  assumes "a_end < a_max"
  shows "unat (drop_bit 6 a_end) < unat (numSlotsFor a_max)"
proof -
  have lt: "unat a_end < unat a_max"
    using assms by (simp add: word_less_nat_alt)
  then have pos: "0 < a_max"
    by (simp add: word_less_nat_alt)
  have "unat a_end \<le> unat a_max - 1"
    using lt by simp
  then have "unat a_end div 64 \<le> (unat a_max - 1) div 64"
    by (rule div_le_mono)
  then show ?thesis
    by (simp add: unat_numSlotsFor [OF pos] unat_bucket)
qed

lemma bucket_span:
  fixes a_begin a_end :: u32
  assumes "a_begin \<le> a_end"
  shows "unat (drop_bit 6 a_begin) + unat (drop_bit 6 a_end - drop_bit 6 a_begin)
    = unat (drop_bit 6 a_end)"
proof -
  have "unat a_begin \<le> unat a_end"
    using assms by (simp add: word_le_nat_alt)
  then have "unat a_begin div 64 \<le> unat a_end div 64"
    by (rule div_le_mono)
  then have le: "drop_bit 6 a_begin \<le> drop_bit 6 a_end"
    by (simp add: word_le_nat_alt unat_bucket)
  then show ?thesis
    by (simp add: unat_sub word_le_nat_alt)
qed

lemma unat_of_nat_u32: "q < 2 ^ 32 \<Longrightarrow> unat (word_of_nat q :: u32) = q"
  by (simp add: unat_of_nat)

lemma unat_suc_less:
  fixes slot :: "'a::len word"
  assumes "slot < endv"
  shows "unat (slot + 1) = Suc (unat slot)"
proof -
  have "unat slot < unat endv"
    using assms by (simp add: word_less_nat_alt)
  moreover have "unat endv < 2 ^ LENGTH('a)"
    by (rule unsigned_less)
  ultimately have "Suc (unat slot) < 2 ^ LENGTH('a)"
    by linarith
  then show ?thesis
    by (simp add: unat_word_ariths)
qed

lemma unat_numSlotsFor_bounds:
  assumes "0 < a_max"
  shows "unat a_max \<le> 64 * unat (numSlotsFor a_max)" and "unat (numSlotsFor a_max) \<le> 2 ^ 26"
proof -
  obtain m where m: "unat a_max = Suc m"
    using assms by (cases "unat a_max") (simp_all add: word_less_nat_alt)
  have n: "unat (numSlotsFor a_max) = m div 64 + 1"
    by (simp add: unat_numSlotsFor [OF assms] m)
  have "m < 64 * (m div 64) + 64"
    using mod_less_divisor [of 64 m] mult_div_mod_eq [of 64 m] by linarith
  then show "unat a_max \<le> 64 * unat (numSlotsFor a_max)"
    by (simp add: n m)
  have "unat a_max < 2 ^ 32"
    using unsigned_less [of a_max] by simp
  then have "m \<le> 4294967294"
    using m by simp
  then have "m div 64 \<le> 4294967294 div 64"
    by (rule div_le_mono)
  then show "unat (numSlotsFor a_max) \<le> 2 ^ 26"
    by (simp add: n)
qed

lemma word_of_nat_less_u32:
  assumes "k < unat (m :: u32)"
  shows "word_of_nat k < m"
proof -
  have "unat m < 2 ^ 32"
    using unsigned_less [of m] by simp
  then have "k < 2 ^ 32"
    using assms by simp
  then have "unat (word_of_nat k :: u32) = k"
    by (rule unat_of_nat_u32)
  then show ?thesis
    using assms by (simp add: word_less_nat_alt)
qed

section \<open>\<open>setRange\<close> and the bits it sets\<close>

text \<open>
  C1. After \<open>setRange(a, b)\<close> every index in \<open>[a, b]\<close> should be set and every other one
  unchanged. On a zeroed array of capacity 64, \<open>setRange(2, 5)\<close> leaves the word
  \<open>0xFFFFFFFFFFFFFFE7\<close>: index 3, inside the range, is not set, and index 0, outside
  it, was unset before the call and is set after it. The spread of \<open>bitBegin\<close> shifts to
  the right and the spread of \<open>bitEnd\<close> to the left, so the two masks cover the bits at
  or below \<open>begin\<close> and at or above \<open>end\<close>.
\<close>

theorem setRange_2_5_on_64:
  "BitArrayExt_init (BitArrayExt_ctor 0) 64 [0]
     = Inr \<lparr>bits = [0], m_numSlots = 1, m_max = 64, m_last = 0\<rparr> \<and>
   setRange \<lparr>bits = [0], m_numSlots = 1, m_max = 64, m_last = 0\<rparr> 2 5
     = Inr \<lparr>bits = [0xFFFFFFFFFFFFFFE7], m_numSlots = 1, m_max = 64, m_last = 0\<rparr> \<and>
   isSet \<lparr>bits = [0xFFFFFFFFFFFFFFE7], m_numSlots = 1, m_max = 64, m_last = 0\<rparr> 3 = Inr False \<and>
   isSet \<lparr>bits = [0], m_numSlots = 1, m_max = 64, m_last = 0\<rparr> 0 = Inr False \<and>
   isSet \<lparr>bits = [0xFFFFFFFFFFFFFFE7], m_numSlots = 1, m_max = 64, m_last = 0\<rparr> 0 = Inr True"
  by code_simp

text \<open>
  The scenario of two words: \<open>setRange(60, 70)\<close> on a zeroed array of capacity 128 fills
  the first word and the bits 6 to 63 of the second, 122 bits in all; the indices 59
  and 71 are set and 64 is not.
\<close>

lemma setRange_60_70_on_128:
  "setRange \<lparr>bits = [0, 0], m_numSlots = 2, m_max = 128, m_last = 0\<rparr> 60 70
     = Inr \<lparr>bits = [0xFFFFFFFFFFFFFFFF, 0xFFFFFFFFFFFFFFC0], m_numSlots = 2, m_max = 128,
            m_last = 0\<rparr> \<and>
   doCount \<lparr>bits = [0xFFFFFFFFFFFFFFFF, 0xFFFFFFFFFFFFFFC0], m_numSlots = 2, m_max = 128,
            m_last = 0\<rparr> = Inr 122 \<and>
   isSet \<lparr>bits = [0xFFFFFFFFFFFFFFFF, 0xFFFFFFFFFFFFFFC0], m_numSlots = 2, m_max = 128,
          m_last = 0\<rparr> 59 = Inr True \<and>
   isSet \<lparr>bits = [0xFFFFFFFFFFFFFFFF, 0xFFFFFFFFFFFFFFC0], m_numSlots = 2, m_max = 128,
          m_last = 0\<rparr> 64 = Inr False \<and>
   isSet \<lparr>bits = [0xFFFFFFFFFFFFFFFF, 0xFFFFFFFFFFFFFFC0], m_numSlots = 2, m_max = 128,
          m_last = 0\<rparr> 71 = Inr True"
  by code_simp

section \<open>Bits at or past the capacity\<close>

text \<open>
  C2. No operation should set a bit at a position \<open>p \<ge> M\<close> of the final word. With
  capacity 1 the first \<open>setFirst\<close> sets bit 0 and returns 0; the array is then full, and
  the second \<open>setFirst\<close> returns 1 (the capacity) after \<open>setRightmostBit\<close> has set bit 1
  of the only word. \<open>setAny\<close> does the same, and \<open>setRange(0, 0)\<close> sets all 64 bits.
  The queries rely on those bits being clear: on the full array \<open>getFirstUnsetBit\<close>
  returns \<open>max() = 1\<close> before the second \<open>setFirst\<close> and 2 after it.
\<close>

theorem setFirst_sets_bit_past_max:
  "BitArrayExt_init (BitArrayExt_ctor 0) 1 [0]
     = Inr \<lparr>bits = [0], m_numSlots = 1, m_max = 1, m_last = 0\<rparr> \<and>
   setFirst \<lparr>bits = [0], m_numSlots = 1, m_max = 1, m_last = 0\<rparr>
     = Inr (0, \<lparr>bits = [1], m_numSlots = 1, m_max = 1, m_last = 0\<rparr>) \<and>
   setFirst \<lparr>bits = [1], m_numSlots = 1, m_max = 1, m_last = 0\<rparr>
     = Inr (1, \<lparr>bits = [3], m_numSlots = 1, m_max = 1, m_last = 0\<rparr>) \<and>
   setAny \<lparr>bits = [1], m_numSlots = 1, m_max = 1, m_last = 0\<rparr>
     = Inr (1, \<lparr>bits = [3], m_numSlots = 1, m_max = 1, m_last = 0\<rparr>) \<and>
   bit (3 :: u64) 1 \<and>
   setRange \<lparr>bits = [0], m_numSlots = 1, m_max = 1, m_last = 0\<rparr> 0 0
     = Inr \<lparr>bits = [0xFFFFFFFFFFFFFFFF], m_numSlots = 1, m_max = 1, m_last = 0\<rparr> \<and>
   getFirstUnsetBit \<lparr>bits = [1], m_numSlots = 1, m_max = 1, m_last = 0\<rparr> = Inr 1 \<and>
   getFirstUnsetBit \<lparr>bits = [3], m_numSlots = 1, m_max = 1, m_last = 0\<rparr> = Inr 2"
  by code_simp

section \<open>\<open>setFirst\<close> on a zeroed array\<close>

lemma mask_full_u64:
  assumes "64 \<le> m"
  shows "(mask m :: u64) = UINT64_MAX"
  unfolding UINT64_MAX_def
proof (rule bit_word_eqI)
  fix i :: nat
  assume "i < LENGTH(64)"
  then show "bit (mask m :: u64) i \<longleftrightarrow> bit (- 1 :: u64) i"
    using assms by (simp add: bit_simps)
qed

lemma mask_not_full_u64:
  assumes "r < 64"
  shows "(mask r :: u64) \<noteq> UINT64_MAX"
proof
  assume "(mask r :: u64) = UINT64_MAX"
  then have "bit (mask r :: u64) 63 \<longleftrightarrow> bit (- 1 :: u64) 63"
    by (simp add: UINT64_MAX_def)
  then show False
    using assms by (simp add: bit_simps)
qed

lemma mask_succ: "(mask r :: u64) + 1 = 2 ^ r"
  by (simp add: mask_eq_decr_exp)

lemma mask_or_next: "(mask r :: u64) OR 2 ^ r = mask (Suc r)"
  by (simp add: mask_Suc_exp or.commute)

lemma takeWhile_upt_first:
  assumes "r < n" and "\<forall>i < r. P i" and "\<not> P r"
  shows "takeWhile P [0..<n] = [0..<r]"
proof -
  have "[0..<r + (n - r)] = [0..<r] @ [r..<r + (n - r)]"
    by (rule upt_add_eq_append) simp
  moreover have "[r..<n] = r # [Suc r..<n]"
    using assms(1) by (rule upt_conv_Cons)
  ultimately have split: "[0..<n] = [0..<r] @ r # [Suc r..<n]"
    using assms(1) by simp
  have "takeWhile P ([0..<r] @ r # [Suc r..<n]) = [0..<r] @ takeWhile P (r # [Suc r..<n])"
    using assms(2) by (intro takeWhile_append2) simp
  then show ?thesis
    using assms(3) by (simp only: split) simp
qed

lemma cnttz_u64_exp:
  assumes "r < 64"
  shows "cnttz_u64 (2 ^ r) = word_of_nat r"
proof -
  have "takeWhile (\<lambda>i. \<not> bit (2 ^ r :: u64) i) [0..<64] = [0..<r]"
    using assms by (intro takeWhile_upt_first) (simp_all add: bit_simps)
  then show ?thesis
    by (simp add: cnttz_u64_def)
qed

lemma slot_index_u32:
  assumes "r < 64"
  shows "push_bit 6 (word_of_nat q :: u32) + ucast (word_of_nat r :: u64) = word_of_nat (64 * q + r)"
proof -
  have "take_bit 64 r = r"
    using assms by (intro take_bit_nat_eq_self) simp
  then have "(ucast (word_of_nat r :: u64) :: u32) = word_of_nat r"
    by (simp add: unsigned_of_nat)
  then show ?thesis
    by (simp add: push_bit_eq_mult)
qed

lemma length_filled: "length (filled n k) = n"
  by (simp add: filled_def)

lemma nth_filled: "j < n \<Longrightarrow> filled n k ! j = mask (k - 64 * j)"
  by (simp add: filled_def)

lemma filled_0: "filled n 0 = replicate n 0"
  by (rule nth_equalityI) (simp_all add: filled_def)

lemma filled_step:
  assumes "r < 64" and "q < n"
  shows "(filled n (64 * q + r))[q := mask (Suc r)] = filled n (Suc (64 * q + r))"
proof (rule nth_equalityI)
  show "length ((filled n (64 * q + r))[q := mask (Suc r)]) = length (filled n (Suc (64 * q + r)))"
    by (simp add: length_filled)
next
  fix j
  assume "j < length ((filled n (64 * q + r))[q := mask (Suc r)])"
  then have j: "j < n"
    by (simp add: length_filled)
  consider "j < q" | "j = q" | "q < j"
    by linarith
  then show "(filled n (64 * q + r))[q := mask (Suc r)] ! j = filled n (Suc (64 * q + r)) ! j"
  proof cases
    case 1
    then have "64 \<le> 64 * q + r - 64 * j" and "64 \<le> Suc (64 * q + r) - 64 * j"
      by simp_all
    then have "(mask (64 * q + r - 64 * j) :: u64) = mask (Suc (64 * q + r) - 64 * j)"
      by (simp only: mask_full_u64)
    then show ?thesis
      using 1 j by (simp add: nth_filled length_filled)
  next
    case 2
    have "Suc (64 * q + r) - 64 * q = Suc r"
      by simp
    then show ?thesis
      using 2 j by (simp add: nth_filled length_filled)
  next
    case 3
    then have "64 * q + r - 64 * j = 0" and "Suc (64 * q + r) - 64 * j = 0"
      using assms(1) by simp_all
    then show ?thesis
      using 3 j by (simp add: nth_filled length_filled)
  qed
qed

lemma setRightmostBit_filled:
  assumes "bits s = filled n (64 * q + r) @ rest" and "r < 64" and "q < n" and "n \<le> 2 ^ 26"
  shows "setRightmostBit s (word_of_nat q)
    = Inr (if word_of_nat (64 * q + r) < m_max s then word_of_nat (64 * q + r) else m_max s,
           s\<lparr>bits := filled n (Suc (64 * q + r)) @ rest\<rparr>)"
proof -
  have "q < 2 ^ 32"
    using assms(3,4) by simp
  then have uq: "unat (word_of_nat q :: u32) = q"
    by (rule unat_of_nat_u32)
  have len: "q < length (bits s)"
    using assms(1,3) by (simp add: length_filled)
  have w: "bits s ! q = mask r"
    using assms(1,3) by (simp add: nth_append length_filled nth_filled)
  have rm: "bits s ! q + 1 = 2 ^ r"
    by (simp only: w mask_succ)
  have orr: "bits s ! q OR 2 ^ r = mask (Suc r)"
    by (simp only: w mask_or_next)
  have idx: "push_bit 6 (word_of_nat q :: u32) + ucast (cnttz_u64 (2 ^ r))
      = word_of_nat (64 * q + r)"
    by (simp only: cnttz_u64_exp [OF assms(2)] slot_index_u32 [OF assms(2)])
  have upd: "(bits s)[q := mask (Suc r)] = filled n (Suc (64 * q + r)) @ rest"
    using filled_step [OF assms(2,3)] assms(1,3) by (simp add: list_update_append1 length_filled)
  show ?thesis
    by (simp add: setRightmostBit_def Let_def uq len rm orr idx upd)
qed

lemma setFirst_loop_skip:
  assumes "bits s = filled n (64 * q + r) @ rest" and "r < 64" and "q < n" and "n = unat endv"
    and "unat slot \<le> q"
  shows "setFirst_loop s slot endv = setRightmostBit s (word_of_nat q)"
  using assms(5)
proof (induction "q - unat slot" arbitrary: slot)
  case 0
  then have u: "unat slot = q"
    by simp
  have "word_of_nat (unat slot) = slot"
    by simp
  then have sl: "slot = word_of_nat q"
    using u by simp
  have lt: "slot < endv"
    using u assms(3,4) by (simp add: word_less_nat_alt)
  have w: "bits s ! unat slot \<noteq> UINT64_MAX"
    using u assms(1,2,3) by (simp add: nth_append length_filled nth_filled mask_not_full_u64)
  have len: "unat slot < length (bits s)"
    using u assms(1,3) by (simp add: length_filled)
  show ?case
    using lt w len sl by (subst setFirst_loop.simps) (simp add: Let_def)
next
  case (Suc d)
  then have u: "unat slot < q"
    by simp
  have lt: "slot < endv"
    using u assms(3,4) by (simp add: word_less_nat_alt)
  have len: "unat slot < length (bits s)"
    using u assms(1,3) by (simp add: length_filled)
  have "64 \<le> 64 * q + r - 64 * unat slot"
    using u by simp
  then have w: "bits s ! unat slot = UINT64_MAX"
    using u assms(1,3) by (simp add: nth_append length_filled nth_filled mask_full_u64)
  have nx: "unat (slot + 1) = Suc (unat slot)"
    using lt by (rule unat_suc_less)
  have rec: "setFirst_loop s (slot + 1) endv = setRightmostBit s (word_of_nat q)"
  proof (rule Suc.hyps(1))
    show "d = q - unat (slot + 1)"
      using Suc.hyps(2) nx by simp
    show "unat (slot + 1) \<le> q"
      using u nx by simp
  qed
  show ?case
    using lt w len rec by (subst setFirst_loop.simps) (simp add: Let_def)
qed

lemma setFirst_loop_full:
  assumes "bits s = filled n k @ rest" and "64 * n \<le> k" and "n = unat endv"
    and "unat slot \<le> n"
  shows "setFirst_loop s slot endv = Inr (m_max s, s)"
  using assms(4)
proof (induction "n - unat slot" arbitrary: slot)
  case 0
  then have "unat slot = unat endv"
    using assms(3) by simp
  then have "\<not> slot < endv"
    by (simp add: word_less_nat_alt)
  then show ?case
    by (subst setFirst_loop.simps) simp
next
  case (Suc d)
  then have u: "unat slot < n"
    by simp
  have lt: "slot < endv"
    using u assms(3) by (simp add: word_less_nat_alt)
  have len: "unat slot < length (bits s)"
    using u assms(1) by (simp add: length_filled)
  have "64 \<le> k - 64 * unat slot"
    using u assms(2) by simp
  then have w: "bits s ! unat slot = UINT64_MAX"
    using u assms(1) by (simp add: nth_append length_filled nth_filled mask_full_u64)
  have nx: "unat (slot + 1) = Suc (unat slot)"
    using lt by (rule unat_suc_less)
  have rec: "setFirst_loop s (slot + 1) endv = Inr (m_max s, s)"
  proof (rule Suc.hyps(1))
    show "d = n - unat (slot + 1)"
      using Suc.hyps(2) nx by simp
    show "unat (slot + 1) \<le> n"
      using u nx by simp
  qed
  show ?case
    using lt w len rec by (subst setFirst_loop.simps) (simp add: Let_def)
qed

lemma setFirst_filled_below:
  assumes "0 < a_max" and "k < unat a_max"
  shows "setFirst \<lparr>bits = filled (unat (numSlotsFor a_max)) k @ rest, m_numSlots = numSlotsFor a_max,
                   m_max = a_max, m_last = c\<rparr>
    = Inr (word_of_nat k,
           \<lparr>bits = filled (unat (numSlotsFor a_max)) (Suc k) @ rest, m_numSlots = numSlotsFor a_max,
            m_max = a_max, m_last = c\<rparr>)"
proof -
  define n where "n = unat (numSlotsFor a_max)"
  define q where "q = k div 64"
  define r where "r = k mod 64"
  define s where "s = \<lparr>bits = filled n k @ rest, m_numSlots = numSlotsFor a_max, m_max = a_max,
    m_last = c\<rparr>"
  have k: "k = 64 * q + r"
    by (simp add: q_def r_def)
  have r: "r < 64"
    by (simp add: r_def)
  have "k < 64 * n"
    using assms(2) unat_numSlotsFor_bounds(1) [OF assms(1)] by (simp add: n_def)
  then have q: "q < n"
    using k by simp
  have n26: "n \<le> 2 ^ 26"
    using unat_numSlotsFor_bounds(2) [OF assms(1)] by (simp add: n_def)
  have b: "bits s = filled n (64 * q + r) @ rest"
    by (simp add: s_def k)
  have "setFirst s = setFirst_loop s 0 (numSlotsFor a_max)"
    by (simp add: setFirst_def s_def)
  also have "\<dots> = setRightmostBit s (word_of_nat q)"
    using b r q by (rule setFirst_loop_skip) (simp_all add: n_def)
  also have "\<dots> = Inr (if word_of_nat (64 * q + r) < m_max s then word_of_nat (64 * q + r)
      else m_max s, s\<lparr>bits := filled n (Suc (64 * q + r)) @ rest\<rparr>)"
    using b r q n26 by (rule setRightmostBit_filled)
  also have "\<dots> = Inr (word_of_nat k, s\<lparr>bits := filled n (Suc k) @ rest\<rparr>)"
    using word_of_nat_less_u32 [OF assms(2)] by (simp add: k s_def)
  finally show ?thesis
    by (simp add: s_def n_def)
qed

lemma setFirst_filled_at_max:
  assumes "0 < a_max"
  shows "\<exists>s'. setFirst \<lparr>bits = filled (unat (numSlotsFor a_max)) (unat a_max) @ rest,
                   m_numSlots = numSlotsFor a_max, m_max = a_max, m_last = c\<rparr> = Inr (a_max, s')"
proof -
  define n where "n = unat (numSlotsFor a_max)"
  define q where "q = unat a_max div 64"
  define r where "r = unat a_max mod 64"
  define s where "s = \<lparr>bits = filled n (unat a_max) @ rest, m_numSlots = numSlotsFor a_max,
    m_max = a_max, m_last = c\<rparr>"
  have k: "unat a_max = 64 * q + r"
    by (simp add: q_def r_def)
  have r: "r < 64"
    by (simp add: r_def)
  have n26: "n \<le> 2 ^ 26"
    using unat_numSlotsFor_bounds(2) [OF assms(1)] by (simp add: n_def)
  have sf: "setFirst s = setFirst_loop s 0 (numSlotsFor a_max)"
    by (simp add: setFirst_def s_def)
  have "\<exists>s'. setFirst s = Inr (a_max, s')"
  proof (cases "unat a_max < 64 * n")
    case True
    then have q: "q < n"
      using k by simp
    have b: "bits s = filled n (64 * q + r) @ rest"
      by (simp add: s_def k)
    have me: "word_of_nat (64 * q + r) = a_max"
      using k by (metis of_nat_unat ucast_id)
    have "setFirst_loop s 0 (numSlotsFor a_max) = setRightmostBit s (word_of_nat q)"
      using b r q by (rule setFirst_loop_skip) (simp_all add: n_def)
    also have "\<dots> = Inr (if word_of_nat (64 * q + r) < m_max s then word_of_nat (64 * q + r)
        else m_max s, s\<lparr>bits := filled n (Suc (64 * q + r)) @ rest\<rparr>)"
      using b r q n26 by (rule setRightmostBit_filled)
    also have "\<dots> = Inr (a_max, s\<lparr>bits := filled n (Suc (64 * q + r)) @ rest\<rparr>)"
      by (simp only: me) (simp add: s_def)
    finally show ?thesis
      using sf by simp
  next
    case False
    then have full: "64 * n \<le> unat a_max"
      by simp
    have b: "bits s = filled n (unat a_max) @ rest"
      by (simp add: s_def)
    have "setFirst_loop s 0 (numSlotsFor a_max) = Inr (m_max s, s)"
      using b full by (rule setFirst_loop_full) (simp_all add: n_def)
    then show ?thesis
      using sf by (simp add: s_def)
  qed
  then show ?thesis
    by (simp add: s_def n_def)
qed

lemma setFirst_calls_filled:
  assumes "0 < a_max" and "k + j \<le> unat a_max"
  shows "setFirst_calls j \<lparr>bits = filled (unat (numSlotsFor a_max)) k @ rest,
                   m_numSlots = numSlotsFor a_max, m_max = a_max, m_last = c\<rparr>
    = Inr (map word_of_nat [k..<k + j],
           \<lparr>bits = filled (unat (numSlotsFor a_max)) (k + j) @ rest, m_numSlots = numSlotsFor a_max,
            m_max = a_max, m_last = c\<rparr>)"
  using assms(2)
proof (induction j arbitrary: k)
  case 0
  then show ?case
    by simp
next
  case (Suc j)
  have lt: "k < unat a_max"
    using Suc.prems by simp
  have rest: "Suc k + j \<le> unat a_max"
    using Suc.prems by simp
  have a: "k + Suc j = Suc k + j"
    by simp
  have "[k..<Suc k + j] = k # [Suc k..<Suc k + j]"
    by (rule upt_conv_Cons) simp
  then have l: "map word_of_nat [k..<k + Suc j]
      = (word_of_nat k :: u32) # map word_of_nat [Suc k..<Suc k + j]"
    by (simp only: a list.map)
  have step: "setFirst \<lparr>bits = filled (unat (numSlotsFor a_max)) k @ rest,
      m_numSlots = numSlotsFor a_max, m_max = a_max, m_last = c\<rparr>
    = Inr (word_of_nat k, \<lparr>bits = filled (unat (numSlotsFor a_max)) (Suc k) @ rest,
        m_numSlots = numSlotsFor a_max, m_max = a_max, m_last = c\<rparr>)"
    by (rule setFirst_filled_below [OF assms(1) lt])
  have ih: "setFirst_calls j \<lparr>bits = filled (unat (numSlotsFor a_max)) (Suc k) @ rest,
      m_numSlots = numSlotsFor a_max, m_max = a_max, m_last = c\<rparr>
    = Inr (map word_of_nat [Suc k..<Suc k + j],
        \<lparr>bits = filled (unat (numSlotsFor a_max)) (Suc k + j) @ rest,
         m_numSlots = numSlotsFor a_max, m_max = a_max, m_last = c\<rparr>)"
    by (rule Suc.IH [OF rest])
  show ?case
    unfolding l by (simp add: step ih del: upt_Suc)
qed

lemma BitArrayExt_init_filled:
  assumes "unat (numSlotsFor a_max) \<le> length mem"
  shows "BitArrayExt_init s a_max mem
    = Inr \<lparr>bits = filled (unat (numSlotsFor a_max)) 0 @ drop (unat (numSlotsFor a_max)) mem,
           m_numSlots = numSlotsFor a_max, m_max = a_max, m_last = 0\<rparr>"
  using assms by (simp add: BitArrayExt_init_def reset_def memset_words_def filled_0)

text \<open>
  C3. For every capacity \<open>max() > 0\<close>: on the array that \<open>init\<close> leaves (all slots
  zero) \<open>setFirst()\<close> called \<open>max()\<close> times returns \<open>0, 1, ..., max() - 1\<close> in this
  order, and one more call returns \<open>max()\<close>. No call fails, whatever the buffer held
  before \<open>init\<close>, as long as it has room for the \<open>numSlotsFor(max())\<close> slots.
\<close>

theorem setFirst_in_order:
  assumes "0 < a_max" and "unat (numSlotsFor a_max) \<le> length mem"
  shows "\<exists>s0 s1 s2. BitArrayExt_init s a_max mem = Inr s0 \<and>
    setFirst_calls (unat a_max) s0 = Inr (map word_of_nat [0..<unat a_max], s1) \<and>
    setFirst s1 = Inr (a_max, s2)"
proof -
  define rest where "rest = drop (unat (numSlotsFor a_max)) mem"
  obtain s2 where "setFirst \<lparr>bits = filled (unat (numSlotsFor a_max)) (unat a_max) @ rest,
      m_numSlots = numSlotsFor a_max, m_max = a_max, m_last = 0\<rparr> = Inr (a_max, s2)"
    using setFirst_filled_at_max [OF assms(1)] by blast
  moreover have "setFirst_calls (unat a_max) \<lparr>bits = filled (unat (numSlotsFor a_max)) 0 @ rest,
      m_numSlots = numSlotsFor a_max, m_max = a_max, m_last = 0\<rparr>
    = Inr (map word_of_nat [0..<unat a_max],
        \<lparr>bits = filled (unat (numSlotsFor a_max)) (unat a_max) @ rest,
         m_numSlots = numSlotsFor a_max, m_max = a_max, m_last = 0\<rparr>)"
    using setFirst_calls_filled [OF assms(1), of 0 "unat a_max" rest 0] by simp
  ultimately show ?thesis
    using BitArrayExt_init_filled [OF assms(2)] unfolding rest_def by blast
qed

theorem setFirst_in_order_witness:
  "(0 :: u32) < 3 \<and> unat (numSlotsFor 3) \<le> length [5, 7 :: u64] \<and>
   (\<exists>s0 s1 s2. BitArrayExt_init (BitArrayExt_ctor 0) 3 [5, 7] = Inr s0 \<and>
      setFirst_calls 3 s0 = Inr ([0, 1, 2], s1) \<and> setFirst s1 = Inr (3, s2))"
proof -
  have h1: "(0 :: u32) < 3"
    by simp
  have h2: "unat (numSlotsFor 3) \<le> length [5, 7 :: u64]"
    by (simp add: numSlotsFor_def)
  have l: "map word_of_nat [0..<unat (3 :: u32)] = [0, 1, 2 :: u32]"
    by (simp add: upt_rec)
  have e: "\<exists>s0 s1 s2. BitArrayExt_init (BitArrayExt_ctor 0) 3 [5, 7] = Inr s0 \<and>
      setFirst_calls 3 s0 = Inr ([0, 1, 2], s1) \<and> setFirst s1 = Inr (3, s2)"
    using setFirst_in_order [OF h1 h2, of "BitArrayExt_ctor 0"] unfolding l by simp
  from h1 h2 e show ?thesis
    by (intro conjI)
qed

section \<open>\<open>doCount\<close>\<close>

text \<open>
  C4. \<open>doCount()\<close> should be the number of indices below \<open>max()\<close> that \<open>isSet\<close> reports.
  Two calls of \<open>setFirst\<close> on a zeroed array of capacity 1 leave the word 3; \<open>doCount\<close>
  returns 2, and one index (index 0) is set. The count is right on every array in
  which no bit at or past the capacity is set (lemma \<open>doCount_eq_countSet\<close> below).
\<close>

theorem doCount_after_two_setFirst:
  "BitArrayExt_init (BitArrayExt_ctor 0) 1 [0]
     = Inr \<lparr>bits = [0], m_numSlots = 1, m_max = 1, m_last = 0\<rparr> \<and>
   setFirst_calls 2 \<lparr>bits = [0], m_numSlots = 1, m_max = 1, m_last = 0\<rparr>
     = Inr ([0, 1], \<lparr>bits = [3], m_numSlots = 1, m_max = 1, m_last = 0\<rparr>) \<and>
   doCount \<lparr>bits = [3], m_numSlots = 1, m_max = 1, m_last = 0\<rparr> = Inr 2 \<and>
   countSet \<lparr>bits = [3], m_numSlots = 1, m_max = 1, m_last = 0\<rparr> = 1"
  by code_simp

subsection \<open>\<open>doCount\<close> on an array without bits past its capacity\<close>

lemma unat_low6: "unat ((word_of_nat i :: u32) AND 63) = i mod 64"
proof -
  have "(63 :: u32) = mask 6"
    by (simp add: mask_eq_exp_minus_1)
  then have "(word_of_nat i :: u32) AND 63 = take_bit 6 (word_of_nat i)"
    by (simp only: take_bit_eq_mask)
  also have "\<dots> = word_of_nat (take_bit 6 i)"
    by (simp add: of_nat_take_bit)
  finally have "unat ((word_of_nat i :: u32) AND 63) = unat (word_of_nat (i mod 64) :: u32)"
    by (simp add: take_bit_eq_mod)
  moreover have "i mod 64 < 64"
    by simp
  then have "i mod 64 < 2 ^ 32"
    by simp
  ultimately show ?thesis
    by (simp add: unat_of_nat_u32)
qed

lemma isSet_bit:
  assumes "i < unat (m_max s)" and "i div 64 < length (bits s)"
  shows "isSet s (word_of_nat i) = Inr (bit (bits s ! (i div 64)) (i mod 64))"
proof -
  have lt: "word_of_nat i < m_max s"
    using assms(1) by (rule word_of_nat_less_u32)
  have "unat (m_max s) < 2 ^ 32"
    using unsigned_less [of "m_max s"] by simp
  then have "i < 2 ^ 32"
    using assms(1) by simp
  then have b: "unat (drop_bit 6 (word_of_nat i :: u32)) = i div 64"
    by (simp add: unat_bucket unat_of_nat_u32)
  have c: "(bits s ! (i div 64) AND 2 ^ (i mod 64) \<noteq> 0)
      = bit (bits s ! (i div 64)) (i mod 64)"
    by (simp add: bit_iff_and_push_bit_not_eq_0)
  show ?thesis
    using lt assms(2) by (simp add: isSet_def Let_def b unat_low6 c)
qed

lemma filter_slot:
  "length (filter (\<lambda>i. bit (xs ! (i div 64) :: u64) (i mod 64)) [64 * n..<64 * n + 64])
    = length (filter (bit (xs ! n)) [0..<64])"
proof -
  have "[64 * n..<64 * n + 64] = map (\<lambda>b. b + 64 * n) [0..<64]"
    by (simp only: map_add_upt add.commute)
  then have "filter (\<lambda>i. bit (xs ! (i div 64)) (i mod 64)) [64 * n..<64 * n + 64]
      = map (\<lambda>b. b + 64 * n)
          (filter ((\<lambda>i. bit (xs ! (i div 64)) (i mod 64)) \<circ> (\<lambda>b. b + 64 * n)) [0..<64])"
    by (simp only: filter_map)
  moreover have "filter ((\<lambda>i. bit (xs ! (i div 64)) (i mod 64)) \<circ> (\<lambda>b. b + 64 * n)) [0..<64]
      = filter (bit (xs ! n)) [0..<64]"
    by (rule filter_cong) simp_all
  ultimately show ?thesis
    by simp
qed

lemma filter_slots:
  "length (filter (\<lambda>i. bit (xs ! (i div 64) :: u64) (i mod 64)) [0..<64 * n])
    = (\<Sum>j<n. length (filter (bit (xs ! j)) [0..<64]))"
proof (induction n)
  case 0
  show ?case
    by simp
next
  case (Suc n)
  have e: "64 * Suc n = 64 * n + 64"
    by simp
  have sp: "[0..<64 * n + 64] = [0..<64 * n] @ [64 * n..<64 * n + 64]"
    by (rule upt_add_eq_append) simp
  show ?case
    by (simp only: e sp filter_append length_append Suc.IH filter_slot sum.lessThan_Suc)
qed

lemma doCount_loop_sum:
  assumes "unat ii \<le> length (bits s)"
  shows "doCount_loop s ii acc = Inr (acc + (\<Sum>j<unat ii. cntbits_u64 (bits s ! j)))"
  using assms
proof (induction "unat ii" arbitrary: ii acc)
  case 0
  then have "ii = 0"
    by (simp add: unat_eq_0)
  then show ?case
    by (simp add: doCount_loop.simps [of s 0])
next
  case (Suc n)
  then have nz: "ii \<noteq> 0"
    by (metis Zero_not_Suc unat_0)
  have u: "unat (ii - 1) = n"
    using Suc.hyps(2) by (simp add: unat_minus_one [OF nz])
  have inb: "n < length (bits s)"
    using Suc.prems Suc.hyps(2) by simp
  have rec: "doCount_loop s (ii - 1) (acc + cntbits_u64 (bits s ! n))
      = Inr (acc + cntbits_u64 (bits s ! n) + (\<Sum>j<unat (ii - 1). cntbits_u64 (bits s ! j)))"
  proof (rule Suc.hyps(1))
    show "n = unat (ii - 1)"
      using u by simp
    show "unat (ii - 1) \<le> length (bits s)"
      using u inb by simp
  qed
  have s: "(\<Sum>j<unat ii. cntbits_u64 (bits s ! j))
      = (\<Sum>j<n. cntbits_u64 (bits s ! j)) + cntbits_u64 (bits s ! n)"
    by (simp only: Suc.hyps(2) [symmetric] sum.lessThan_Suc)
  show ?case
    using nz inb rec
    by (subst doCount_loop.simps) (simp add: Let_def u s add.assoc add.commute)
qed

lemma unat_cntbits: "unat (cntbits_u64 w) = length (filter (bit w) [0..<64])"
proof -
  have "length (filter (bit w) [0..<64]) \<le> length [0..<64 :: nat]"
    by (rule length_filter_le)
  then have "length (filter (bit w) [0..<64]) < 2 ^ LENGTH(64)"
    by simp
  then show ?thesis
    by (simp add: cntbits_u64_def unat_of_nat)
qed

lemma unat_sum_cntbits:
  assumes "n \<le> 2 ^ 32"
  shows "unat (\<Sum>j<n. cntbits_u64 (xs ! j)) = (\<Sum>j<n. length (filter (bit (xs ! j)) [0..<64]))
    \<and> (\<Sum>j<n. length (filter (bit (xs ! j)) [0..<64])) \<le> 64 * n"
  using assms
proof (induction n)
  case 0
  show ?case
    by simp
next
  case (Suc n)
  then have ih: "unat (\<Sum>j<n. cntbits_u64 (xs ! j))
      = (\<Sum>j<n. length (filter (bit (xs ! j)) [0..<64]))"
    and bd: "(\<Sum>j<n. length (filter (bit (xs ! j)) [0..<64])) \<le> 64 * n"
    by simp_all
  have one: "length (filter (bit (xs ! n)) [0..<64]) \<le> 64"
    using length_filter_le [of "bit (xs ! n)" "[0..<64]"] by simp
  have "64 * n + 64 \<le> 64 * 2 ^ 32"
    using Suc.prems by simp
  then have "unat (\<Sum>j<n. cntbits_u64 (xs ! j)) + unat (cntbits_u64 (xs ! n)) < 2 ^ LENGTH(64)"
    using bd one by (simp add: ih unat_cntbits)
  then have "unat ((\<Sum>j<n. cntbits_u64 (xs ! j)) + cntbits_u64 (xs ! n))
      = unat (\<Sum>j<n. cntbits_u64 (xs ! j)) + unat (cntbits_u64 (xs ! n))"
    by (simp only: unat_add_lem [THEN iffD1])
  then show ?case
    using bd one by (simp add: ih unat_cntbits)
qed

text \<open>
  On every array that has no bit set at a position at or past its capacity, \<open>doCount()\<close>
  is the number of indices below \<open>max()\<close> that \<open>isSet\<close> reports: the count is wrong
  only where such a bit has been set before.
\<close>

lemma doCount_eq_countSet:
  assumes "0 < m_max s" and "m_numSlots s = numSlotsFor (m_max s)"
    and "unat (m_numSlots s) \<le> length (bits s)"
    and "\<forall>i. unat (m_max s) \<le> i \<and> i < 64 * unat (m_numSlots s)
           \<longrightarrow> \<not> bit (bits s ! (i div 64)) (i mod 64)"
  shows "\<exists>c. doCount s = Inr c \<and> unat c = countSet s"
proof -
  define n where "n = unat (m_numSlots s)"
  define M where "M = unat (m_max s)"
  define P where "P = (\<lambda>i. bit (bits s ! (i div 64)) (i mod 64))"
  define W where "W = (\<Sum>j<n. cntbits_u64 (bits s ! j))"
  have Mn: "M \<le> 64 * n"
    using unat_numSlotsFor_bounds(1) [OF assms(1)] assms(2) by (simp add: M_def n_def)
  have n26: "n \<le> 2 ^ 26"
    using unat_numSlotsFor_bounds(2) [OF assms(1)] assms(2) by (simp add: n_def)
  have M32: "M < 2 ^ 32"
    using unsigned_less [of "m_max s"] by (simp add: M_def)
  have "filter (\<lambda>i. isSet s (word_of_nat i) = Inr True) [0..<M] = filter P [0..<M]"
  proof (rule filter_cong)
    show "[0..<M] = [0..<M]"
      by (rule refl)
  next
    fix i
    assume "i \<in> set [0..<M]"
    then have i: "i < M"
      by simp
    then have "i < 64 * n"
      using Mn by simp
    then have "i div 64 < n"
      by simp
    then have "i div 64 < length (bits s)"
      using assms(3) by (simp add: n_def)
    then have "isSet s (word_of_nat i) = Inr (P i)"
      using i by (simp add: isSet_bit M_def P_def)
    then show "(isSet s (word_of_nat i) = Inr True) = P i"
      by simp
  qed
  then have cs: "countSet s = length (filter P [0..<M])"
    by (simp add: countSet_def M_def)
  have "[0..<M + (64 * n - M)] = [0..<M] @ [M..<M + (64 * n - M)]"
    by (rule upt_add_eq_append) simp
  then have sp: "[0..<64 * n] = [0..<M] @ [M..<64 * n]"
    using Mn by simp
  have "filter P [M..<64 * n] = []"
    using assms(4) by (simp add: filter_empty_conv P_def M_def n_def)
  then have "length (filter P [0..<64 * n]) = length (filter P [0..<M])"
    by (simp add: sp)
  then have "countSet s = (\<Sum>j<n. length (filter (bit (bits s ! j)) [0..<64]))"
    using filter_slots [of "bits s" n] by (simp add: cs P_def)
  moreover have "n \<le> 2 ^ 32"
    using n26 by simp
  then have "unat W = (\<Sum>j<n. length (filter (bit (bits s ! j)) [0..<64]))"
    using unat_sum_cntbits [of n "bits s"] by (simp add: W_def)
  ultimately have uw: "unat W = countSet s"
    by simp
  have "countSet s \<le> M"
    using length_filter_le [of P "[0..<M]"] by (simp add: cs)
  then have "unat W < 2 ^ 32"
    using M32 uw by simp
  then have "take_bit 32 (unat W) = unat W"
    by (rule take_bit_nat_eq_self)
  then have "unat (ucast W :: u32) = unat W"
    by (simp add: unsigned_ucast_eq)
  moreover have "doCount s = Inr (ucast W)"
    using doCount_loop_sum [of "m_numSlots s" s 0] assms(3)
    by (simp add: doCount_def W_def n_def)
  ultimately show ?thesis
    using uw by simp
qed

section \<open>The cursor\<close>

text \<open>
  C5. The cursor should stay within \<open>[0, numSlots()]\<close>. \<open>unsetRange\<close> stores the bit index
  \<open>begin\<close> in it and \<open>setRange\<close> the bit index \<open>end\<close>: on a zeroed array of capacity 128
  (two slots) \<open>unsetRange(100, 100)\<close> and \<open>setRange(0, 100)\<close> both leave the cursor at 100.
  \<open>setAny\<close> reads the cursor as a word index: after \<open>setRange(0, 100)\<close> and
  \<open>setRange(64, 64)\<close> both words are full and the cursor is still 100, and \<open>setAny\<close>
  then scans the slots from 0 up to the cursor and reads past the two slots of the
  buffer.
\<close>

theorem unsetRange_cursor_past_numSlots:
  "BitArrayExt_init (BitArrayExt_ctor 0) 128 [0, 0]
     = Inr \<lparr>bits = [0, 0], m_numSlots = 2, m_max = 128, m_last = 0\<rparr> \<and>
   unsetRange \<lparr>bits = [0, 0], m_numSlots = 2, m_max = 128, m_last = 0\<rparr> 100 100
     = Inr \<lparr>bits = [0, 0], m_numSlots = 2, m_max = 128, m_last = 100\<rparr> \<and>
   setRange \<lparr>bits = [0, 0], m_numSlots = 2, m_max = 128, m_last = 0\<rparr> 0 100
     = Inr \<lparr>bits = [0xFFFFFFFFFFFFFFFF, 0xFFFFFFF000000000], m_numSlots = 2, m_max = 128,
            m_last = 100\<rparr> \<and>
   \<not> (100 :: u32) \<le> 2 \<and>
   setRange \<lparr>bits = [0xFFFFFFFFFFFFFFFF, 0xFFFFFFF000000000], m_numSlots = 2, m_max = 128,
            m_last = 100\<rparr> 64 64
     = Inr \<lparr>bits = [0xFFFFFFFFFFFFFFFF, 0xFFFFFFFFFFFFFFFF], m_numSlots = 2, m_max = 128,
            m_last = 100\<rparr> \<and>
   setAny \<lparr>bits = [0xFFFFFFFFFFFFFFFF, 0xFFFFFFFFFFFFFFFF], m_numSlots = 2, m_max = 128,
           m_last = 100\<rparr> = Inl OutOfBounds"
  by code_simp

text \<open>
  C6. After \<open>setRange(begin, end)\<close> whose range covers the cursor, the cursor should be
  just past the range, \<open>end + 1\<close>. The cursor is a word index (\<open>setAny\<close> scans from
  slot \<open>m_last\<close>), and \<open>setRange\<close> stores the bit index \<open>_end\<close> in it: on the zeroed array
  of capacity 128 the range \<open>[0, 5]\<close> covers the cursor 0, and after \<open>setRange(0, 5)\<close> the
  cursor is 5. That is not \<open>end + 1 = 6\<close>, it is not the slot just past the range
  either (\<open>(5 >> 6) + 1 = 1\<close>), and it is past the two slots of the array.
\<close>

theorem setRange_cursor_not_end_plus_1:
  "BitArrayExt_init (BitArrayExt_ctor 0) 128 [0, 0]
     = Inr \<lparr>bits = [0, 0], m_numSlots = 2, m_max = 128, m_last = 0\<rparr> \<and>
   (0 :: u32) \<le> m_last \<lparr>bits = [0, 0], m_numSlots = 2, m_max = 128, m_last = 0\<rparr> \<and>
   m_last \<lparr>bits = [0, 0], m_numSlots = 2, m_max = 128, m_last = 0\<rparr> \<le> 5 \<and>
   setRange \<lparr>bits = [0, 0], m_numSlots = 2, m_max = 128, m_last = 0\<rparr> 0 5
     = Inr \<lparr>bits = [0xFFFFFFFFFFFFFFE1, 0], m_numSlots = 2, m_max = 128, m_last = 5\<rparr> \<and>
   m_last \<lparr>bits = [0xFFFFFFFFFFFFFFE1, 0], m_numSlots = 2, m_max = 128, m_last = 5\<rparr> \<noteq> 5 + 1 \<and>
   m_last \<lparr>bits = [0xFFFFFFFFFFFFFFE1, 0], m_numSlots = 2, m_max = 128, m_last = 5\<rparr>
     \<noteq> drop_bit 6 5 + 1 \<and>
   \<not> m_last \<lparr>bits = [0xFFFFFFFFFFFFFFE1, 0], m_numSlots = 2, m_max = 128, m_last = 5\<rparr>
       \<le> m_numSlots \<lparr>bits = [0xFFFFFFFFFFFFFFE1, 0], m_numSlots = 2, m_max = 128, m_last = 5\<rparr>"
  by code_simp

text \<open>
  The value \<open>setRange\<close> stores, on every array whose buffer has room for its
  \<open>numSlotsFor(max())\<close> slots and for every range \<open>begin \<le> end < max()\<close>: the call
  returns normally, and the field holds the bit index \<open>end\<close> when it was within
  \<open>[begin, end]\<close> as a number, and is unchanged otherwise.
\<close>

lemma setRange_stores_end:
  assumes "a_begin \<le> a_end" and "a_end < m_max s"
    and "m_numSlots s = numSlotsFor (m_max s)"
    and "unat (m_numSlots s) \<le> length (bits s)"
  shows "\<exists>s'. setRange s a_begin a_end = Inr s' \<and>
    m_last s' = (if a_begin \<le> m_last s \<and> m_last s \<le> a_end then a_end else m_last s)"
proof -
  have b: "a_begin < m_max s"
    using assms(1,2) by simp
  have ie: "unat (drop_bit 6 a_end) < length (bits s)"
    using bucket_in_range [OF assms(2)] assms(3,4) by simp
  have ib: "unat (drop_bit 6 a_begin) < length (bits s)"
    using bucket_in_range [OF b] assms(3,4) by simp
  show ?thesis
    using b assms(2) ie ib bucket_span [OF assms(1)]
    by (simp add: setRange_def memset_words_def Let_def)
qed

section \<open>\<open>getLastSetBit\<close>\<close>

lemma UINT64_MAX_neq_0: "UINT64_MAX \<noteq> 0"
  by (simp add: UINT64_MAX_def)


lemma getLastSetBit_loop_all_ones:
  assumes "unat ii \<le> length (bits s)" and "w < unat ii"
    and "bits s ! w = UINT64_MAX"
    and "\<forall>j. w < j \<and> j < unat ii \<longrightarrow> bits s ! j = 0"
  shows "getLastSetBit_loop s ii = Inr (push_bit 6 (word_of_nat w + 1))"
  using assms
proof (induction "unat ii" arbitrary: ii)
  case 0
  then show ?case
    by simp
next
  case (Suc n)
  then have nz: "ii \<noteq> 0"
    by (metis Zero_not_Suc unat_0)
  have u: "unat (ii - 1) = n"
    using Suc.hyps(2) by (simp add: unat_minus_one [OF nz])
  have inb: "n < length (bits s)"
    using Suc.prems(1) Suc.hyps(2) by simp
  show ?case
  proof (cases "n = w")
    case True
    have "word_of_nat (unat (ii - 1)) = ii - 1"
      by simp
    then have "ii - 1 = word_of_nat w"
      using u True by simp
    then show ?thesis
      using nz u inb True Suc.prems(3) UINT64_MAX_neq_0
      by (subst getLastSetBit_loop.simps) (simp add: Let_def)
  next
    case False
    then have lt: "w < n"
      using Suc.prems(2) Suc.hyps(2) by simp
    have z: "bits s ! n = 0"
      using Suc.prems(4) Suc.hyps(2) lt by simp
    have rec: "getLastSetBit_loop s (ii - 1) = Inr (push_bit 6 (word_of_nat w + 1))"
    proof (rule Suc.hyps(1))
      show "n = unat (ii - 1)"
        using u by simp
      show "unat (ii - 1) \<le> length (bits s)"
        using u inb by simp
      show "w < unat (ii - 1)"
        using u lt by simp
      show "bits s ! w = UINT64_MAX"
        by (rule Suc.prems(3))
      show "\<forall>j. w < j \<and> j < unat (ii - 1) \<longrightarrow> bits s ! j = 0"
        using u Suc.prems(4) Suc.hyps(2) by simp
    qed
    show ?thesis
      using nz u z rec inb by (subst getLastSetBit_loop.simps) (simp add: Let_def)
  qed
qed





text \<open>
  Where a bit at or past \<open>max()\<close> has been set, the value is \<open>(w + 1) * 64\<close> modulo
  \<open>2 ^ 32\<close> (lemma \<open>getLastSetBit_full_word_mod\<close>). With capacity \<open>2 ^ 32 - 1\<close> the array
  has \<open>2 ^ 26\<close> slots; \<open>setRange(2 ^ 32 - 2, 2 ^ 32 - 2)\<close> on the zeroed array sets all
  bits of the last slot, the bit \<open>2 ^ 32 - 1\<close> past the capacity among them, and
  \<open>getLastSetBit()\<close> then returns 0.
\<close>

lemma getLastSetBit_wraps_at_last_slot:
  "(replicate 67108863 0 @ [- 1]) ! 67108863 = UINT64_MAX \<and>
   getLastSetBit \<lparr>bits = replicate 67108863 0 @ [- 1], m_numSlots = 67108864,
                  m_max = 4294967295, m_last = 0\<rparr> = Inr 0 \<and>
   (67108863 + 1) * 64 = (4294967296 :: nat)"
proof -
  have n: "(replicate 67108863 0 @ [- 1 :: u64]) ! 67108863 = UINT64_MAX"
    by (simp add: nth_append UINT64_MAX_def)
  have "getLastSetBit_loop \<lparr>bits = replicate 67108863 0 @ [- 1], m_numSlots = 67108864,
                  m_max = 4294967295, m_last = 0\<rparr> 67108864 = Inr (push_bit 6 (word_of_nat 67108863 + 1))"
    by (rule getLastSetBit_loop_all_ones) (simp_all add: nth_append UINT64_MAX_def)
  then show ?thesis
    using n by (simp add: getLastSetBit_def)
qed

lemma spread_62: "valBegin_of 4611686018427387904 OR valEnd_of 4611686018427387904 = - 1"
  by code_simp

lemma zeroed_2_26: "replicate 67108864 (0 :: u64) = replicate 67108863 0 @ [0]"
proof -
  have "(67108864 :: nat) = Suc 67108863"
    by simp
  then show ?thesis
    by (simp only: replicate_Suc replicate_append_same)
qed

lemma last_slot_all_ones_reachable:
  "setRange \<lparr>bits = replicate 67108863 0 @ [0], m_numSlots = 67108864, m_max = 4294967295,
              m_last = 0\<rparr> 4294967294 4294967294
     = Inr \<lparr>bits = replicate 67108863 0 @ [- 1], m_numSlots = 67108864, m_max = 4294967295,
            m_last = 0\<rparr>"
proof -
  have a: "unat (drop_bit 6 (4294967294 :: u32)) = 67108863"
    by (simp add: unat_bucket)
  have b: "unat ((4294967294 :: u32) AND 63) = 62"
    by code_simp
  show ?thesis
    by (simp add: setRange_def Let_def a b spread_62 memset_words_def
        nth_append list_update_append)
qed

section \<open>Sizes and addresses of the storage\<close>

text \<open>
  C8. The slot count should be \<open>ceil(max / 64)\<close> for every capacity, 0 included.
  \<open>numSlotsFor\<close> (the same expression in \<open>BitArrayStorageExt\<close>, in \<open>BitArrayStorage\<close> and
  in the \<open>NumSlots\<close> of \<open>BitArrayStorageT\<close>) subtracts 1 first, which wraps around at 0:
  \<open>numSlotsFor(0)\<close> is \<open>2 ^ 26\<close>, not 0. For every capacity from 1 on the count is
  \<open>ceil(max / 64)\<close> (lemma \<open>numSlotsFor_ceil\<close>).
\<close>

theorem numSlotsFor_of_zero: "numSlotsFor 0 = 67108864 \<and> sizeFor 0 = 536870912"
  by code_simp

lemma Set_sizeFor_exact: "unat (Set_sizeFor a_max) = 2 * unat a_max * 2"
proof -
  have "unat a_max < 2 ^ 16"
    using unsigned_less [of a_max] by simp
  then have "unat a_max * 4 < 2 ^ LENGTH(32)"
    by simp
  moreover have "unat a_max < 2 ^ 32"
    using \<open>unat a_max < 2 ^ 16\<close> by simp
  then have "take_bit 32 (unat a_max) = unat a_max"
    by (rule take_bit_nat_eq_self)
  then have "unat (ucast a_max :: u32) = unat a_max"
    by (simp add: unsigned_ucast_eq)
  ultimately have "unat ((ucast a_max :: u32) * 4) = unat a_max * 4"
    by (simp add: unat_mult_lem [THEN iffD1])
  then show ?thesis
    by (simp add: Set_sizeFor_def SizePerElement_def)
qed

lemma Set_init_ext_layout:
  "fst (Set_init_ext st a_max a_mem a_allocator) = a_mem + word_of_nat (2 * unat a_max * 2) \<and>
   m_values (snd (Set_init_ext st a_max a_mem a_allocator)) = a_mem \<and>
   m_indices (snd (Set_init_ext st a_max a_mem a_allocator)) = a_mem + word_of_nat (unat a_max * 2)"
proof -
  have "(ucast (Set_sizeFor a_max) :: addr) = word_of_nat (unat (Set_sizeFor a_max))"
    by simp
  then have "(ucast (Set_sizeFor a_max) :: addr) = word_of_nat (2 * unat a_max * 2)"
    by (simp only: Set_sizeFor_exact)
  moreover have "(2 * ucast a_max :: addr) = word_of_nat (unat a_max * 2)"
    by simp
  ultimately show ?thesis
    by (simp add: Set_init_ext_def Let_def)
qed

lemma sizeFor_exact:
  assumes "0 < a_max"
  shows "unat (sizeFor a_max) = (unat a_max + 63) div 64 * 8"
proof -
  have "unat a_max < 2 ^ 32"
    using unsigned_less [of a_max] by simp
  then have "(unat a_max + 63) div 64 * 8 < 2 ^ 32"
    by simp
  then have "unat (numSlotsFor a_max) * unat (8 :: u32) < 2 ^ LENGTH(32)"
    by (simp add: numSlotsFor_ceil [OF assms])
  then have "unat (numSlotsFor a_max * 8) = unat (numSlotsFor a_max) * unat (8 :: u32)"
    by (simp only: unat_mult_lem [THEN iffD1])
  then show ?thesis
    by (simp add: sizeFor_def numSlotsFor_ceil [OF assms])
qed

lemma BitArrayStorageExt_init_end:
  assumes "0 < a_max"
  shows "fst (BitArrayStorageExt_init st a_max a_mem)
    = a_mem + word_of_nat ((unat a_max + 63) div 64 * 8)"
proof -
  have "(ucast (sizeFor a_max) :: addr) = word_of_nat (unat (sizeFor a_max))"
    by simp
  then show ?thesis
    by (simp add: BitArrayStorageExt_init_def sizeFor_exact [OF assms])
qed

text \<open>
  C9. \<open>init(max, mem)\<close> should return the address just past the claimed region. The
  sparse set does for every capacity (lemma \<open>Set_init_ext_layout\<close>), and the bit array
  for every capacity from 1 on (lemma \<open>BitArrayStorageExt_init_end\<close>). With capacity 0
  the bit array's \<open>init\<close> returns \<open>mem + 2 ^ 29\<close>, not \<open>mem + ceil(0 / 64) * 8 = mem\<close>.
\<close>

theorem BitArrayStorageExt_init_of_zero:
  "BitArrayStorageExt_init BitArrayStorageExt_ctor 0 4096
     = (4096 + 536870912,
        \<lparr>ext_m_bits = 4096, ext_m_numSlots = 67108864, ext_m_max = 0\<rparr>)"
  by code_simp

section \<open>\<open>destroy\<close> of the owned storage\<close>

text \<open>
  C10. \<open>destroy()\<close> of an owned instance releases the buffer at most once. For the bit
  array's \<open>BitArrayStorage\<close> and for a \<open>Set\<close> that owns its buffer (\<open>m_cleanup\<close> is
  true): after one call the buffer pointer is null and at most one release was made; a
  second call releases nothing and leaves the state as it is; and so does a call on a
  default-constructed instance.
\<close>

theorem destroy_releases_once:
  "(own_m_bits (fst (BitArrayStorage_destroy st)) = NULL \<and>
    length (snd (BitArrayStorage_destroy st)) \<le> 1 \<and>
    BitArrayStorage_destroy (fst (BitArrayStorage_destroy st))
      = (fst (BitArrayStorage_destroy st), []) \<and>
    BitArrayStorage_destroy (BitArrayStorage_ctor junk) = (BitArrayStorage_ctor junk, [])) \<and>
   (m_cleanup ss \<longrightarrow>
      m_values (fst (Set_destroy ss)) = NULL \<and>
      length (snd (Set_destroy ss)) \<le> 1 \<and>
      Set_destroy (fst (Set_destroy ss)) = (fst (Set_destroy ss), [])) \<and>
   Set_destroy (Set_ctor raw) = (Set_ctor raw, [])"
  by (simp add: BitArrayStorage_destroy_def BitArrayStorage_ctor_def Set_destroy_def Set_ctor_def)

theorem destroy_releases_once_witness:
  "BitArrayStorage_destroy
     (BitArrayStorage_init (BitArrayStorage_ctor 0) 128 7 4096)
     = (\<lparr>own_m_bits = NULL, own_m_numSlots = 2, own_m_max = 128, own_m_reallocFn = 7\<rparr>,
        [(4096, 7)]) \<and>
   BitArrayStorage_destroy
     \<lparr>own_m_bits = NULL, own_m_numSlots = 2, own_m_max = 128, own_m_reallocFn = 7\<rparr>
     = (\<lparr>own_m_bits = NULL, own_m_numSlots = 2, own_m_max = 128, own_m_reallocFn = 7\<rparr>, []) \<and>
   m_cleanup (Set_init_owned (Set_ctor
      \<lparr>set_m_max = 0, set_m_num = 0, m_values = 1, m_indices = 1, m_reallocator = 0,
        m_cleanup = False\<rparr>) 8 7 4096) \<and>
   m_values (fst (Set_destroy (Set_init_owned (Set_ctor
      \<lparr>set_m_max = 0, set_m_num = 0, m_values = 1, m_indices = 1, m_reallocator = 0,
        m_cleanup = False\<rparr>) 8 7 4096))) = NULL \<and>
   snd (Set_destroy (Set_init_owned (Set_ctor
      \<lparr>set_m_max = 0, set_m_num = 0, m_values = 1, m_indices = 1, m_reallocator = 0,
        m_cleanup = False\<rparr>) 8 7 4096)) = [(4096, 7)] \<and>
   snd (Set_destroy (fst (Set_destroy (Set_init_owned (Set_ctor
      \<lparr>set_m_max = 0, set_m_num = 0, m_values = 1, m_indices = 1, m_reallocator = 0,
        m_cleanup = False\<rparr>) 8 7 4096)))) = []"
  using destroy_releases_once [of
      "BitArrayStorage_init (BitArrayStorage_ctor 0) 128 7 4096" 0
      "Set_init_owned (Set_ctor
        \<lparr>set_m_max = 0, set_m_num = 0, m_values = 1, m_indices = 1, m_reallocator = 0,
          m_cleanup = False\<rparr>) 8 7 4096"
      "\<lparr>set_m_max = 0, set_m_num = 0, m_values = 1, m_indices = 1, m_reallocator = 0,
          m_cleanup = False\<rparr>"]
  by (simp add: BitArrayStorage_destroy_def BitArrayStorage_init_def BitArrayStorage_ctor_def
      Set_destroy_def Set_init_owned_def Set_ctor_def NULL_def numSlotsFor_def)

end
